theory Spec2Isabelle
  imports Main "HOL-Library.Product_Lexorder" "HOL-Library.Word"
begin

section \<open>Version tags\<close>

text \<open>
  The package file that declares \<open>Higher\<close>, \<open>Equal\<close>, \<open>Lower\<close>, \<open>isVersionTag\<close> and
  \<open>VersionCompare\<close> is not part of the sources at hand; \<open>autoupdate.go\<close> only calls them.
  They are modelled from section 4.1 of the specification.
\<close>

datatype panic = PanicMsg string | NilDeref

text \<open>Modelled from the spec: the three outcomes of a comparison (the constants
  \<open>Lower\<close>, \<open>Equal\<close>, \<open>Higher\<close> that \<open>loop\<close> compares against).\<close>

datatype cmp = Lower | Equal | Higher

definition isDigit :: "char \<Rightarrow> bool" where
  "isDigit c = (c \<in> set ''0123456789'')"

definition digitVal :: "char \<Rightarrow> nat" where
  "digitVal c = of_char c - 48"

text \<open>A non-negative integer in decimal: one digit or more.\<close>

definition isUint :: "string \<Rightarrow> bool" where
  "isUint s = (s \<noteq> [] \<and> list_all isDigit s)"

definition atoi :: "string \<Rightarrow> nat" where
  "atoi s = foldl (\<lambda>n c. 10 * n + digitVal c) 0 s"

text \<open>The fields of a string between the occurrences of a separator.\<close>

fun splitOn :: "char \<Rightarrow> string \<Rightarrow> string list" where
  "splitOn d [] = [[]]"
| "splitOn d (c # cs) =
     (if c = d then [] # splitOn d cs
      else (case splitOn d cs of
              [] \<Rightarrow> [[c]]
            | x # xs \<Rightarrow> (c # x) # xs))"

text \<open>Modelled from the spec: \<open>parse(tag) -> (major, minor, patch) | InvalidFormat\<close>,
  where the valid format is exactly \<open>v\<close> followed by three non-negative integers
  separated by \<open>.\<close>; \<open>None\<close> is \<open>InvalidFormat\<close>.\<close>

definition parse :: "string \<Rightarrow> (nat \<times> nat \<times> nat) option" where
  "parse tag =
     (case tag of
        [] \<Rightarrow> None
      | c # rest \<Rightarrow>
          if c \<noteq> CHR ''v'' then None
          else (case splitOn CHR ''.'' rest of
                  [x, y, z] \<Rightarrow>
                    if isUint x \<and> isUint y \<and> isUint z
                    then Some (atoi x, atoi y, atoi z)
                    else None
                | _ \<Rightarrow> None))"

text \<open>Modelled from the spec: \<open>isVersionTag\<close>, the validator \<open>SetVersion\<close> calls, accepts
  exactly the tags that parse.\<close>

definition isVersionTag :: "string \<Rightarrow> bool" where
  "isVersionTag s = (parse s \<noteq> None)"

text \<open>Modelled from the spec: the comparison of two parsed tags, lexicographic on
  (major, minor, patch) as integers; the result names the first argument's position
  relative to the second.\<close>

fun compare3 :: "nat \<times> nat \<times> nat \<Rightarrow> nat \<times> nat \<times> nat \<Rightarrow> cmp" where
  "compare3 (a1, a2, a3) (b1, b2, b3) =
     (if a1 < b1 then Lower else if b1 < a1 then Higher
      else if a2 < b2 then Lower else if b2 < a2 then Higher
      else if a3 < b3 then Lower else if b3 < a3 then Higher
      else Equal)"

text \<open>Modelled from the spec: \<open>compare(a, b) -> {Lower, Equal, Higher}\<close> meaning
  "a is Lower/Equal/Higher than b"; malformed input is a fatal contract violation,
  here \<open>Inl\<close> of a panic.\<close>

definition VersionCompare :: "string \<Rightarrow> string \<Rightarrow> panic + cmp" where
  "VersionCompare a b =
     (case parse a of
        None \<Rightarrow> Inl (PanicMsg ''autoupdate: malformed version tag'')
      | Some x \<Rightarrow>
          (case parse b of
             None \<Rightarrow> Inl (PanicMsg ''autoupdate: malformed version tag'')
           | Some y \<Rightarrow> Inr (compare3 x y)))"

section \<open>Data\<close>

type_synonym byte = "8 word"

datatype error = NoUpdateAvailable | Failure string

text \<open>\<open>type Config struct\<close>.\<close>

record Config =
  URL :: string
  PublicKey :: "byte list"

text \<open>\<open>check.Result\<close> of the update library: only its \<open>Version\<close> field is read here.\<close>

record check_Result =
  Result_Version :: string

text \<open>\<open>type AutoUpdate struct\<close>: the embedded \<open>*Config\<close> (a pointer, \<open>None\<close> when nil),
  the version \<open>v\<close>, and the channel \<open>UpdatedTo\<close>, kept as the values sent on it so far,
  oldest first.\<close>

record AutoUpdate =
  Config :: "Config option"
  v :: string
  UpdatedTo :: "string list"

text \<open>The \<open>Patch\<close> struct is declared in a file that is absent; \<open>Query\<close> builds it with
  the fields \<open>res\<close> and \<open>v\<close> (here \<open>Patch_v\<close>, since \<open>v\<close> is the field of \<open>AutoUpdate\<close>).\<close>

record Patch =
  res :: "check_Result option"
  Patch_v :: string

text \<open>Modelled from the spec: \<open>Patch.Version()\<close>, \<open>version() -> string\<close> with the empty
  string meaning "no patch": the method is absent, it returns the field \<open>v\<close>.\<close>

definition Patch_Version :: "Patch \<Rightarrow> string" where
  "Patch_Version p = Patch_v p"

text \<open>The \<open>*http.Client\<close> values that \<open>SetProxy\<close> stores in \<open>update.HTTPClient\<close>:
  \<open>&http.Client{}\<close>, or a client built by \<open>util.HTTPClient\<close> (named by a number).\<close>

datatype http_client = ZeroClient | BuiltClient nat

record globals =
  HTTPClient :: "http_client option"

datatype logmsg =
    LogStarting
  | LogOldNew string string
  | LogAttempting string
  | LogPatchingSucceeded
  | LogPatchingFailed error
  | LogUpToDate
  | LogCouldNotReach error
  | LogCouldNotUseProxy error

text \<open>What the code outside this package answers: the signature check and the update
  check of the update library, and what applying a patch comes to.\<close>

record collab =
  VerifySignatureWithPEM :: "byte list \<Rightarrow> error option"
  CheckForUpdate :: "string \<Rightarrow> string \<Rightarrow> check_Result option \<times> error option"
  applyPatch :: "Patch \<Rightarrow> error option"

text \<open>Modelled from the spec: \<open>Patch.Apply()\<close>, \<open>apply() -> Error | Success\<close>: the method
  is absent; its result is the one the patching capability gives for this patch.\<close>

definition Patch_Apply :: "collab \<Rightarrow> Patch \<Rightarrow> error option" where
  "Patch_Apply c p = applyPatch c p"

text \<open>The effects of the loop, in the order they happen.\<close>

datatype event =
    EvLog logmsg
  | EvApply Patch "error option"
  | EvSend string
  | EvSetVersion string
  | EvSleep nat

datatype status = Running | Panicked panic

datatype task = GoLoop

section \<open>Operations\<close>

text \<open>\<open>sleepTime = time.Hour * 4\<close>, in nanoseconds.\<close>

definition sleepTime :: nat where
  "sleepTime = 3600000000000 * 4"

text \<open>\<open>strings.HasPrefix\<close>.\<close>

definition HasPrefix :: "string \<Rightarrow> string \<Rightarrow> bool" where
  "HasPrefix s p = (length p \<le> length s \<and> take (length p) s = p)"

text \<open>\<open>SetProxy\<close>. The first argument is \<open>util.HTTPClient\<close>, which belongs to another
  repository: it returns a client pointer and an error. The assignment in the
  \<open>if\<close> statement stores the pointer whatever the error is.\<close>

definition SetProxy ::
  "(string \<Rightarrow> string \<Rightarrow> http_client option \<times> error option) \<Rightarrow> string \<Rightarrow> globals
     \<Rightarrow> globals \<times> logmsg list" where
  "SetProxy util_HTTPClient proxyAddr g =
     (if proxyAddr \<noteq> [] then
        (case util_HTTPClient [] proxyAddr of
           (client, err) \<Rightarrow>
             (g\<lparr>HTTPClient := client\<rparr>,
              (case err of None \<Rightarrow> [] | Some e \<Rightarrow> [LogCouldNotUseProxy e])))
      else (g\<lparr>HTTPClient := Some ZeroClient\<rparr>, []))"

text \<open>\<open>New\<close>.\<close>

definition New :: "Config option \<Rightarrow> AutoUpdate" where
  "New cfg = \<lparr>Config = cfg, v = [], UpdatedTo = []\<rparr>"

text \<open>\<open>SetVersion\<close>: the panic, if any, and the receiver afterwards.\<close>

definition SetVersion :: "string \<Rightarrow> AutoUpdate \<Rightarrow> panic option \<times> AutoUpdate" where
  "SetVersion s a =
     (if \<not> HasPrefix s ''v'' then
        (Some (PanicMsg ''autoupdate: Versions must begin with a \"v\".''), a)
      else if \<not> isVersionTag s then
        (Some (PanicMsg ''autoupdate: Versions must be in the form vX.Y.Z.''), a)
      else (None, a\<lparr>v := s\<rparr>))"

text \<open>\<open>Version\<close>.\<close>

definition Version :: "AutoUpdate \<Rightarrow> string" where
  "Version a = v a"

text \<open>\<open>check\<close>: reading \<open>a.PublicKey\<close> through a nil \<open>*Config\<close> panics; otherwise the
  pair \<open>(res, err)\<close> of the source, and the receiver afterwards.\<close>

definition check ::
  "collab \<Rightarrow> AutoUpdate \<Rightarrow> (panic + check_Result option \<times> error option) \<times> AutoUpdate" where
  "check c a =
     (case Config a of
        None \<Rightarrow> (Inl NilDeref, a)
      | Some cfg \<Rightarrow>
          (case VerifySignatureWithPEM c (PublicKey cfg) of
             Some err \<Rightarrow> (Inr (None, Some err), a)
           | None \<Rightarrow>
               (case CheckForUpdate c (Version a) (URL cfg) of
                  (r, Some err) \<Rightarrow>
                    if err = NoUpdateAvailable then (Inr (None, None), a)
                    else (Inr (None, Some err), a)
                | (r, None) \<Rightarrow> (Inr (r, None), a))))"

text \<open>\<open>Query\<close>: the pair \<open>(Patcher, error)\<close> of the source.\<close>

definition Query ::
  "collab \<Rightarrow> AutoUpdate \<Rightarrow> (panic + Patch option \<times> error option) \<times> AutoUpdate" where
  "Query c a =
     (case check c a of
        (Inl p, a') \<Rightarrow> (Inl p, a')
      | (Inr (r, Some err), a') \<Rightarrow> (Inr (None, Some err), a')
      | (Inr (None, None), a') \<Rightarrow> (Inr (Some \<lparr>res = None, Patch_v = []\<rparr>, None), a')
      | (Inr (Some r, None), a') \<Rightarrow>
          (Inr (Some \<lparr>res = Some r, Patch_v = Result_Version r\<rparr>, None), a'))"

text \<open>The branch of \<open>loop\<close> after \<open>patch.Apply()\<close> returned nil: the send on
  \<open>UpdatedTo\<close>, then \<open>SetVersion\<close>. The channel is unbuffered, so the loop waits in the
  send until a receiver takes the value; the branch is the one of a send that completes.\<close>

definition applied :: "Patch \<Rightarrow> AutoUpdate \<Rightarrow> status \<times> AutoUpdate \<times> event list" where
  "applied patch a =
     (let a1 = a\<lparr>UpdatedTo := UpdatedTo a @ [Patch_Version patch]\<rparr> in
      case SetVersion (Patch_Version patch) a1 of
        (Some p, a2) \<Rightarrow>
          (Panicked p, a2, [EvLog LogPatchingSucceeded, EvSend (Patch_Version patch)])
      | (None, a2) \<Rightarrow>
          (Running, a2,
           [EvLog LogPatchingSucceeded, EvSend (Patch_Version patch),
            EvSetVersion (Patch_Version patch)]))"

text \<open>The branch of \<open>loop\<close> where \<open>Query\<close> returned a patch and a nil error.\<close>

definition queried :: "collab \<Rightarrow> Patch \<Rightarrow> AutoUpdate \<Rightarrow> status \<times> AutoUpdate \<times> event list" where
  "queried c patch a =
     (let l = EvLog (LogOldNew (Version a) (Patch_Version patch)) in
      case VersionCompare (Version a) (Patch_Version patch) of
        Inl p \<Rightarrow> (Panicked p, a, [l])
      | Inr r \<Rightarrow>
          if r = Higher then
            (case Patch_Apply c patch of
               None \<Rightarrow>
                 (case applied patch a of
                    (st, a', es) \<Rightarrow>
                      (st, a',
                       [l, EvLog (LogAttempting (Patch_Version patch)), EvApply patch None]
                       @ es))
             | Some err \<Rightarrow>
                 (Running, a,
                  [l, EvLog (LogAttempting (Patch_Version patch)), EvApply patch (Some err),
                   EvLog (LogPatchingFailed err)]))
          else (Running, a, [l, EvLog LogUpToDate]))"

text \<open>One iteration of the \<open>for\<close> of \<open>loop\<close>; the sleep ends every iteration that
  does not panic.\<close>

definition iteration :: "collab \<Rightarrow> AutoUpdate \<Rightarrow> status \<times> AutoUpdate \<times> event list" where
  "iteration c a =
     (case Query c a of
        (Inl p, a') \<Rightarrow> (Panicked p, a', [])
      | (Inr (patch, Some err), a') \<Rightarrow>
          (Running, a', [EvLog (LogCouldNotReach err), EvSleep sleepTime])
      | (Inr (None, None), a') \<Rightarrow> (Panicked NilDeref, a', [])
      | (Inr (Some patch, None), a') \<Rightarrow>
          (case queried c patch a' of
             (Running, a'', es) \<Rightarrow> (Running, a'', es @ [EvSleep sleepTime])
           | (Panicked p, a'', es) \<Rightarrow> (Panicked p, a'', es)))"

text \<open>\<open>loop\<close> has no exit: it runs one iteration for each answer of the outside world
  it is given, and stops early only by a panic.\<close>

fun iterations :: "collab list \<Rightarrow> AutoUpdate \<Rightarrow> status \<times> AutoUpdate \<times> event list" where
  "iterations [] a = (Running, a, [])"
| "iterations (c # cs) a =
     (case iteration c a of
        (Panicked p, a', es) \<Rightarrow> (Panicked p, a', es)
      | (Running, a', es) \<Rightarrow>
          (case iterations cs a' of (st, a'', es') \<Rightarrow> (st, a'', es @ es')))"

definition loop :: "collab list \<Rightarrow> AutoUpdate \<Rightarrow> status \<times> AutoUpdate \<times> event list" where
  "loop cs a = (case iterations cs a of (st, a', es) \<Rightarrow> (st, a', EvLog LogStarting # es))"

text \<open>\<open>Watch\<close>: the panic, if any, the receiver afterwards, and the goroutines started.
  The \<open>go\<close> statement starts \<open>loop\<close> and does not wait for it.\<close>

definition Watch :: "AutoUpdate \<Rightarrow> panic option \<times> AutoUpdate \<times> task list" where
  "Watch a =
     (if v a = [] then
        (Some (PanicMsg
           ''autoupdate: You must set the executable version in order to watch for updates!''),
         a, [])
      else (None, a, [GoLoop]))"

section \<open>The invariant and the collaborators of the examples\<close>

text \<open>The version of an updater is unset or a well-formed tag.\<close>

definition versionOK :: "AutoUpdate \<Rightarrow> bool" where
  "versionOK a = (v a = [] \<or> isVersionTag (v a))"

definition exampleConfig :: Config where
  "exampleConfig = \<lparr>URL = ''https://update.example.org/check'', PublicKey = []\<rparr>"

text \<open>An updater with a configuration whose version is already set.\<close>

definition updaterAt :: "string \<Rightarrow> AutoUpdate" where
  "updaterAt s = \<lparr>Config = Some exampleConfig, v = s, UpdatedTo = []\<rparr>"

text \<open>An outside world in which the key verifies, the update check returns the given
  pair and applying a patch returns the given error.\<close>

definition answering :: "check_Result option \<times> error option \<Rightarrow> error option \<Rightarrow> collab" where
  "answering r ap =
     \<lparr>VerifySignatureWithPEM = (\<lambda>key. None),
      CheckForUpdate = (\<lambda>appVersion url. r),
      applyPatch = (\<lambda>p. ap)\<rparr>"

definition serverReports :: "string \<Rightarrow> check_Result option \<times> error option" where
  "serverReports s = (Some \<lparr>Result_Version = s\<rparr>, None)"

definition patchTo :: "string \<Rightarrow> Patch" where
  "patchTo s = \<lparr>res = Some \<lparr>Result_Version = s\<rparr>, Patch_v = s\<rparr>"

text \<open>A \<open>util.HTTPClient\<close> that rejects the proxy address: a nil client and an error.\<close>

definition failing_HTTPClient :: "string \<Rightarrow> string \<Rightarrow> http_client option \<times> error option" where
  "failing_HTTPClient rootCA proxyAddr =
     (None, Some (Failure ''Unable to split host and port''))"

section \<open>The loop with the comparison as a parameter\<close>






section \<open>The format of version tags\<close>

lemma splitOn_nonempty: "splitOn d s \<noteq> []"
  by (induction s) (auto split: list.splits)

lemma splitOn_no_sep: "d \<notin> set x \<Longrightarrow> splitOn d x = [x]"
  by (induction x) (auto split: list.splits)

lemma splitOn_field: "d \<notin> set x \<Longrightarrow> splitOn d (x @ d # r) = x # splitOn d r"
  by (induction x) (auto split: list.splits simp: splitOn_nonempty)

lemma splitOn_head:
  "splitOn d s = x # xs \<Longrightarrow> (xs = [] \<and> s = x) \<or> (\<exists>r. s = x @ d # r \<and> splitOn d r = xs)"
proof (induction s arbitrary: x xs)
  case Nil
  then show ?case by simp
next
  case (Cons c cs)
  show ?case
  proof (cases "c = d")
    case True
    with Cons.prems have "x = []" and "splitOn d cs = xs" by simp_all
    with True have "c # cs = x @ d # cs \<and> splitOn d cs = xs" by simp
    then show ?thesis by blast
  next
    case False
    obtain y ys where sp: "splitOn d cs = y # ys"
      using splitOn_nonempty [of d cs] by (cases "splitOn d cs") simp_all
    with False Cons.prems have x: "x = c # y" and xs: "xs = ys" by simp_all
    from Cons.IH [OF sp] consider "ys = []" "cs = y" | r where "cs = y @ d # r" "splitOn d r = ys"
      by blast
    then show ?thesis
    proof cases
      case 1
      with x xs show ?thesis by simp
    next
      case 2
      with x xs have "c # cs = x @ d # r \<and> splitOn d r = xs" by simp
      then show ?thesis by blast
    qed
  qed
qed

lemma splitOn_tail:
  "splitOn d s = x # y # ys \<Longrightarrow> \<exists>r. s = x @ d # r \<and> splitOn d r = y # ys"
  using splitOn_head [of d s x "y # ys"] by simp

lemma splitOn_single: "splitOn d s = [x] \<Longrightarrow> s = x"
  using splitOn_head [of d s x "[]"] splitOn_nonempty by blast

lemma splitOn_three:
  assumes "splitOn d s = [x, y, z]"
  shows "s = x @ d # y @ d # z"
proof -
  from splitOn_tail [OF assms] obtain r where r1: "s = x @ d # r" and r2: "splitOn d r = [y, z]"
    by blast
  from splitOn_tail [OF r2] obtain r' where r3: "r = y @ d # r'" and r4: "splitOn d r' = [z]"
    by blast
  have "r' = z" by (rule splitOn_single [OF r4])
  then have "r = y @ d # z" using r3 by (simp only:)
  then show ?thesis using r1 by (simp only:)
qed

lemma isDigit_not_dot: "isDigit c \<Longrightarrow> c \<noteq> CHR ''.''"
  by (auto simp: isDigit_def)

lemma isUint_no_dot: "isUint x \<Longrightarrow> CHR ''.'' \<notin> set x"
  using isDigit_not_dot by (auto simp: isUint_def list_all_iff)

section \<open>Version tags: validation and order\<close>

lemma isVersionTag_split:
  "isVersionTag s \<longleftrightarrow>
     (\<exists>rest x y z. s = CHR ''v'' # rest \<and> splitOn CHR ''.'' rest = [x, y, z]
        \<and> isUint x \<and> isUint y \<and> isUint z)"
  by (auto simp: isVersionTag_def parse_def split: list.splits)

lemma isVersionTag_HasPrefix: "isVersionTag s \<Longrightarrow> HasPrefix s ''v''"
  by (cases s) (simp_all add: isVersionTag_def parse_def HasPrefix_def split: if_splits)

lemma compare3_Higher: "compare3 x y = Higher \<longleftrightarrow> y < x"
  by (cases x; cases y) (auto simp: less_prod_def)

lemma compare3_Lower: "compare3 x y = Lower \<longleftrightarrow> x < y"
  by (cases x; cases y) (auto simp: less_prod_def)

lemma compare3_Equal: "compare3 x y = Equal \<longleftrightarrow> x = y"
  by (cases x; cases y) (auto simp: less_prod_def)

lemma VersionCompare_wf:
  "isVersionTag a \<Longrightarrow> isVersionTag b \<Longrightarrow>
     VersionCompare a b = Inr (compare3 (the (parse a)) (the (parse b)))"
  by (auto simp: VersionCompare_def isVersionTag_def)

lemma VersionCompare_Inr:
  "VersionCompare a b = Inr r \<Longrightarrow> isVersionTag a \<and> isVersionTag b"
  by (auto simp: VersionCompare_def isVersionTag_def split: option.splits)

lemma isVersionTag_format:
  "isVersionTag s \<longleftrightarrow>
     (\<exists>x y z. isUint x \<and> isUint y \<and> isUint z \<and> s = ''v'' @ x @ ''.'' @ y @ ''.'' @ z)"
proof
  assume "isVersionTag s"
  then obtain rest x y z where s: "s = CHR ''v'' # rest"
    and sp: "splitOn CHR ''.'' rest = [x, y, z]"
    and u: "isUint x \<and> isUint y \<and> isUint z"
    unfolding isVersionTag_split by blast
  have "rest = x @ CHR ''.'' # y @ CHR ''.'' # z" by (rule splitOn_three [OF sp])
  then have "s = ''v'' @ x @ ''.'' @ y @ ''.'' @ z" unfolding s by simp
  with u show "\<exists>x y z. isUint x \<and> isUint y \<and> isUint z \<and> s = ''v'' @ x @ ''.'' @ y @ ''.'' @ z"
    by blast
next
  assume "\<exists>x y z. isUint x \<and> isUint y \<and> isUint z \<and> s = ''v'' @ x @ ''.'' @ y @ ''.'' @ z"
  then obtain x y z where u: "isUint x \<and> isUint y \<and> isUint z"
    and s: "s = ''v'' @ x @ ''.'' @ y @ ''.'' @ z" by blast
  have sp: "splitOn CHR ''.'' (x @ CHR ''.'' # y @ CHR ''.'' # z) = [x, y, z]"
    using u by (simp add: splitOn_field splitOn_no_sep isUint_no_dot)
  have "s = CHR ''v'' # (x @ CHR ''.'' # y @ CHR ''.'' # z)" unfolding s by simp
  with sp u show "isVersionTag s" unfolding isVersionTag_split by blast
qed

lemma SetVersion_cases:
  "SetVersion s a =
     (if isVersionTag s then (None, a\<lparr>v := s\<rparr>)
      else if HasPrefix s ''v''
        then (Some (PanicMsg ''autoupdate: Versions must be in the form vX.Y.Z.''), a)
        else (Some (PanicMsg ''autoupdate: Versions must begin with a \"v\".''), a))"
  using isVersionTag_HasPrefix [of s] by (simp add: SetVersion_def)

text \<open>
  Claim C5. \<open>SetVersion s\<close> panics exactly when \<open>s\<close> is not of the form
  \<open>v<uint>.<uint>.<uint>\<close>, and then the updater is as it was; for a well-formed tag
  it does not panic and stores \<open>s\<close> as the version. It panics on \<open>1.0.0\<close>, \<open>v1.0\<close> and
  \<open>vX.Y.Z\<close>, and stores \<open>v0.0.1\<close> and \<open>v12.3.45\<close>. The validator \<open>isVersionTag\<close> is
  the one modelled from the specification.
\<close>
theorem SetVersion_panics_iff_malformed:
  "(fst (SetVersion s a) \<noteq> None \<longleftrightarrow>
      \<not> (\<exists>x y z. isUint x \<and> isUint y \<and> isUint z \<and> s = ''v'' @ x @ ''.'' @ y @ ''.'' @ z))
   \<and> (fst (SetVersion s a) \<noteq> None \<longrightarrow> snd (SetVersion s a) = a)
   \<and> (fst (SetVersion s a) = None \<longrightarrow> snd (SetVersion s a) = a\<lparr>v := s\<rparr>)
   \<and> fst (SetVersion ''1.0.0'' a) \<noteq> None
   \<and> fst (SetVersion ''v1.0'' a) \<noteq> None
   \<and> fst (SetVersion ''vX.Y.Z'' a) \<noteq> None
   \<and> SetVersion ''v0.0.1'' a = (None, a\<lparr>v := ''v0.0.1''\<rparr>)
   \<and> SetVersion ''v12.3.45'' a = (None, a\<lparr>v := ''v12.3.45''\<rparr>)"
proof -
  have "fst (SetVersion s a) \<noteq> None \<longleftrightarrow> \<not> isVersionTag s"
    by (simp add: SetVersion_cases)
  then have c1: "fst (SetVersion s a) \<noteq> None \<longleftrightarrow>
      \<not> (\<exists>x y z. isUint x \<and> isUint y \<and> isUint z \<and> s = ''v'' @ x @ ''.'' @ y @ ''.'' @ z)"
    unfolding isVersionTag_format .
  have c2: "fst (SetVersion s a) \<noteq> None \<longrightarrow> snd (SetVersion s a) = a"
    by (simp add: SetVersion_cases)
  have c3: "fst (SetVersion s a) = None \<longrightarrow> snd (SetVersion s a) = a\<lparr>v := s\<rparr>"
    by (simp add: SetVersion_cases)
  have e1: "\<not> isVersionTag ''1.0.0''" by code_simp
  have e2: "\<not> isVersionTag ''v1.0''" by code_simp
  have e3: "\<not> isVersionTag ''vX.Y.Z''" by code_simp
  have e4: "isVersionTag ''v0.0.1''" by code_simp
  have e5: "isVersionTag ''v12.3.45''" by code_simp
  have c4: "fst (SetVersion ''1.0.0'' a) \<noteq> None"
    unfolding SetVersion_cases using e1 by simp
  have c5: "fst (SetVersion ''v1.0'' a) \<noteq> None"
    unfolding SetVersion_cases using e2 by simp
  have c6: "fst (SetVersion ''vX.Y.Z'' a) \<noteq> None"
    unfolding SetVersion_cases using e3 by simp
  have c7: "SetVersion ''v0.0.1'' a = (None, a\<lparr>v := ''v0.0.1''\<rparr>)"
    unfolding SetVersion_cases using e4 by simp
  have c8: "SetVersion ''v12.3.45'' a = (None, a\<lparr>v := ''v12.3.45''\<rparr>)"
    unfolding SetVersion_cases using e5 by simp
  show ?thesis
    by (intro conjI) (rule c1 c2 c3 c4 c5 c6 c7 c8)+
qed

theorem SetVersion_panics_iff_malformed_witness:
  "fst (SetVersion ''v1.0'' (New None)) \<noteq> None
   \<and> snd (SetVersion ''v1.0'' (New None)) = New None
   \<and> fst (SetVersion ''v1.2.0'' (New None)) = None
   \<and> snd (SetVersion ''v1.2.0'' (New None)) = (New None)\<lparr>v := ''v1.2.0''\<rparr>"
proof -
  have p: "fst (SetVersion ''v1.0'' (New None)) \<noteq> None"
    using SetVersion_panics_iff_malformed [of "''v1.0''" "New None"] by blast
  have "isVersionTag ''v1.2.0''" by code_simp
  then have q: "fst (SetVersion ''v1.2.0'' (New None)) = None"
    by (simp add: SetVersion_cases)
  from p q show ?thesis
    using SetVersion_panics_iff_malformed [of "''v1.0''" "New None"]
      SetVersion_panics_iff_malformed [of "''v1.2.0''" "New None"] by blast
qed

text \<open>
  Claim C7. On well-formed tags the comparison is a strict total order that agrees with
  the lexicographic order of the (major, minor, patch) triples of numbers:
  \<open>compare(a, b)\<close> is \<open>Higher\<close> exactly when \<open>compare(b, a)\<close> is \<open>Lower\<close>, \<open>compare(a, a)\<close>
  is \<open>Equal\<close>, the three outcomes are transitive, and each outcome is the one the order
  \<open><\<close> on the triples gives.
\<close>
theorem VersionCompare_strict_total_order:
  assumes "isVersionTag a" and "isVersionTag b" and "isVersionTag c"
  shows "(VersionCompare a b = Inr Higher \<longleftrightarrow> VersionCompare b a = Inr Lower)
    \<and> VersionCompare a a = Inr Equal
    \<and> (VersionCompare a b = Inr Higher \<and> VersionCompare b c = Inr Higher
         \<longrightarrow> VersionCompare a c = Inr Higher)
    \<and> (VersionCompare a b = Inr Lower \<and> VersionCompare b c = Inr Lower
         \<longrightarrow> VersionCompare a c = Inr Lower)
    \<and> (VersionCompare a b = Inr Equal \<and> VersionCompare b c = Inr Equal
         \<longrightarrow> VersionCompare a c = Inr Equal)
    \<and> (VersionCompare a b = Inr Higher \<longleftrightarrow> the (parse b) < the (parse a))
    \<and> (VersionCompare a b = Inr Equal \<longleftrightarrow> the (parse a) = the (parse b))
    \<and> (VersionCompare a b = Inr Lower \<longleftrightarrow> the (parse a) < the (parse b))"
proof -
  have ab: "VersionCompare a b = Inr (compare3 (the (parse a)) (the (parse b)))"
    and ba: "VersionCompare b a = Inr (compare3 (the (parse b)) (the (parse a)))"
    and bc: "VersionCompare b c = Inr (compare3 (the (parse b)) (the (parse c)))"
    and ac: "VersionCompare a c = Inr (compare3 (the (parse a)) (the (parse c)))"
    and aa: "VersionCompare a a = Inr (compare3 (the (parse a)) (the (parse a)))"
    using assms by (simp_all add: VersionCompare_wf)
  show ?thesis
    unfolding ab ba bc ac aa sum.inject compare3_Higher compare3_Lower compare3_Equal
    by auto
qed

theorem VersionCompare_strict_total_order_witness:
  "VersionCompare ''v1.10.0'' ''v1.9.3'' = Inr Higher
   \<and> VersionCompare ''v1.9.3'' ''v1.10.0'' = Inr Lower
   \<and> VersionCompare ''v1.9.3'' ''v0.12.7'' = Inr Higher
   \<and> VersionCompare ''v1.10.0'' ''v0.12.7'' = Inr Higher
   \<and> VersionCompare ''v1.10.0'' ''v1.10.0'' = Inr Equal"
proof -
  have a: "isVersionTag ''v1.10.0''" by code_simp
  have b: "isVersionTag ''v1.9.3''" by code_simp
  have c: "isVersionTag ''v0.12.7''" by code_simp
  have ab: "VersionCompare ''v1.10.0'' ''v1.9.3'' = Inr Higher" by code_simp
  have bc: "VersionCompare ''v1.9.3'' ''v0.12.7'' = Inr Higher" by code_simp
  from ab bc show ?thesis
    using VersionCompare_strict_total_order [OF a b c] by blast
qed

section \<open>Query and Watch\<close>

lemma check_frame: "snd (check c a) = a"
  by (simp add: check_def split: option.splits prod.splits)

text \<open>
  Claim C8. \<open>Query\<close> never changes the updater: the receiver after the call, its
  version and its \<open>Config\<close> included, is the receiver before it; so a second \<open>Query\<close>
  against a collaborator that answers the same returns what the first returned, in
  particular a patch with the same \<open>Version()\<close>.
\<close>

theorem Query_leaves_updater_unchanged:
  "snd (Query c a) = a \<and> fst (Query c (snd (Query c a))) = fst (Query c a)"
proof -
  have "snd (Query c a) = a"
    by (simp add: Query_def check_def split: option.splits prod.splits sum.splits)
  then show ?thesis by simp
qed

text \<open>
  Claim C9. \<open>Watch\<close> panics exactly when the version is unset (the empty string);
  otherwise it starts the loop as a goroutine and returns at once, without running any
  part of the loop itself and without changing the updater.
\<close>
theorem Watch_panics_iff_unset:
  "(fst (Watch a) \<noteq> None \<longleftrightarrow> Version a = [])
   \<and> (Version a \<noteq> [] \<longrightarrow> Watch a = (None, a, [GoLoop]))
   \<and> (Version a = [] \<longrightarrow> snd (Watch a) = (a, []))"
  by (simp add: Watch_def Version_def)

theorem Watch_panics_iff_unset_witness:
  "Version (snd (SetVersion ''v1.0.0'' (New None))) \<noteq> []
   \<and> Watch (snd (SetVersion ''v1.0.0'' (New None)))
       = (None, snd (SetVersion ''v1.0.0'' (New None)), [GoLoop])
   \<and> Version (New None) = []
   \<and> fst (Watch (New None)) \<noteq> None
   \<and> snd (Watch (New None)) = (New None, [])"
proof -
  have t: "isVersionTag ''v1.0.0''" by code_simp
  have 1: "Version (snd (SetVersion ''v1.0.0'' (New None))) \<noteq> []"
    using t by (simp add: SetVersion_cases Version_def)
  have 2: "Version (New None) = []" by (simp add: Version_def New_def)
  from 1 2 show ?thesis
    using Watch_panics_iff_unset [of "snd (SetVersion ''v1.0.0'' (New None))"]
      Watch_panics_iff_unset [of "New None"] by blast
qed

section \<open>One iteration of the loop\<close>

lemma Query_frame: "snd (Query c a) = a"
  by (simp add: Query_def check_def split: option.splits prod.splits sum.splits)

lemma applied_wellformed:
  "isVersionTag (Patch_Version p) \<Longrightarrow>
     applied p a =
       (Running, a\<lparr>UpdatedTo := UpdatedTo a @ [Patch_Version p], v := Patch_Version p\<rparr>,
        [EvLog LogPatchingSucceeded, EvSend (Patch_Version p),
         EvSetVersion (Patch_Version p)])"
  by (simp add: applied_def SetVersion_cases Let_def)

lemma applied_malformed:
  "\<not> isVersionTag (Patch_Version p) \<Longrightarrow>
     (\<exists>x. applied p a =
        (Panicked x, a\<lparr>UpdatedTo := UpdatedTo a @ [Patch_Version p]\<rparr>,
         [EvLog LogPatchingSucceeded, EvSend (Patch_Version p)]))"
  by (simp add: applied_def SetVersion_cases Let_def)

lemma queried_cases:
  "queried c p a =
     (case VersionCompare (Version a) (Patch_Version p) of
        Inl x \<Rightarrow> (Panicked x, a, [EvLog (LogOldNew (Version a) (Patch_Version p))])
      | Inr r \<Rightarrow>
          if r = Higher then
            (case Patch_Apply c p of
               None \<Rightarrow>
                 (Running,
                  a\<lparr>UpdatedTo := UpdatedTo a @ [Patch_Version p], v := Patch_Version p\<rparr>,
                  [EvLog (LogOldNew (Version a) (Patch_Version p)),
                   EvLog (LogAttempting (Patch_Version p)), EvApply p None,
                   EvLog LogPatchingSucceeded, EvSend (Patch_Version p),
                   EvSetVersion (Patch_Version p)])
             | Some err \<Rightarrow>
                 (Running, a,
                  [EvLog (LogOldNew (Version a) (Patch_Version p)),
                   EvLog (LogAttempting (Patch_Version p)), EvApply p (Some err),
                   EvLog (LogPatchingFailed err)]))
          else (Running, a,
                [EvLog (LogOldNew (Version a) (Patch_Version p)), EvLog LogUpToDate]))"
proof (cases "VersionCompare (Version a) (Patch_Version p)")
  case (Inl x)
  then show ?thesis by (simp add: queried_def Let_def)
next
  case (Inr r)
  then have "isVersionTag (Patch_Version p)" using VersionCompare_Inr by blast
  then show ?thesis
    using Inr by (simp add: queried_def Let_def applied_wellformed split: option.splits)
qed

lemma iteration_cases:
  "iteration c a =
     (case fst (Query c a) of
        Inl x \<Rightarrow> (Panicked x, a, [])
      | Inr (patch, Some err) \<Rightarrow>
          (Running, a, [EvLog (LogCouldNotReach err), EvSleep sleepTime])
      | Inr (None, None) \<Rightarrow> (Panicked NilDeref, a, [])
      | Inr (Some patch, None) \<Rightarrow>
          (case queried c patch a of
             (Running, a'', es) \<Rightarrow> (Running, a'', es @ [EvSleep sleepTime])
           | (Panicked x, a'', es) \<Rightarrow> (Panicked x, a'', es)))"
proof -
  obtain r where q: "Query c a = (r, a)"
    using Query_frame [of c a] by (cases "Query c a") simp
  show ?thesis unfolding iteration_def q by simp
qed

lemma iteration_Apply:
  assumes "iteration c a = (st, a', es)" and "EvApply p r \<in> set es"
  shows "fst (Query c a) = Inr (Some p, None)
    \<and> VersionCompare (Version a) (Patch_Version p) = Inr Higher
    \<and> Patch_Apply c p = r"
  using assms
  by (auto simp: iteration_cases queried_cases
      split: sum.splits option.splits if_splits prod.splits status.splits)

lemma iteration_Higher:
  assumes "fst (Query c a) = Inr (Some p, None)"
    and "VersionCompare (Version a) (Patch_Version p) = Inr Higher"
  shows "iteration c a =
     (case Patch_Apply c p of
        None \<Rightarrow>
          (Running,
           a\<lparr>UpdatedTo := UpdatedTo a @ [Patch_Version p], v := Patch_Version p\<rparr>,
           [EvLog (LogOldNew (Version a) (Patch_Version p)),
            EvLog (LogAttempting (Patch_Version p)), EvApply p None,
            EvLog LogPatchingSucceeded, EvSend (Patch_Version p),
            EvSetVersion (Patch_Version p), EvSleep sleepTime])
      | Some err \<Rightarrow>
          (Running, a,
           [EvLog (LogOldNew (Version a) (Patch_Version p)),
            EvLog (LogAttempting (Patch_Version p)), EvApply p (Some err),
            EvLog (LogPatchingFailed err), EvSleep sleepTime]))"
  using assms by (simp add: iteration_cases queried_cases split: option.splits)

lemma iteration_not_Higher:
  assumes "fst (Query c a) = Inr (Some p, None)"
    and "VersionCompare (Version a) (Patch_Version p) = Inr r" and "r \<noteq> Higher"
  shows "iteration c a =
     (Running, a,
      [EvLog (LogOldNew (Version a) (Patch_Version p)), EvLog LogUpToDate,
       EvSleep sleepTime])"
  using assms by (simp add: iteration_cases queried_cases)

lemma iteration_malformed:
  assumes "fst (Query c a) = Inr (Some p, None)"
    and "VersionCompare (Version a) (Patch_Version p) = Inl x"
  shows "iteration c a =
     (Panicked x, a, [EvLog (LogOldNew (Version a) (Patch_Version p))])"
  using assms by (simp add: iteration_cases queried_cases)

lemma Query_answering:
  "Query (answering (serverReports s) ap) (updaterAt t) = (Inr (Some (patchTo s), None), updaterAt t)"
  by (simp add: Query_def check_def answering_def serverReports_def updaterAt_def patchTo_def)

lemma Query_no_update:
  "Query (answering (None, Some NoUpdateAvailable) ap) (updaterAt t)
     = (Inr (Some \<lparr>res = None, Patch_v = []\<rparr>, None), updaterAt t)"
  by (simp add: Query_def check_def answering_def updaterAt_def)

text \<open>
  Claim C2. In an iteration in which \<open>Apply()\<close> returns nil, exactly one value is sent
  on the notification channel, the version of the patch; afterwards \<open>Version()\<close> returns
  that version; and the send comes before the version is set.
\<close>
theorem apply_success_publishes_then_sets_version:
  assumes "iteration c a = (st, a', es)" and "EvApply p None \<in> set es"
  shows "st = Running
    \<and> UpdatedTo a' = UpdatedTo a @ [Patch_Version p]
    \<and> Version a' = Patch_Version p
    \<and> es = [EvLog (LogOldNew (Version a) (Patch_Version p)),
            EvLog (LogAttempting (Patch_Version p)), EvApply p None,
            EvLog LogPatchingSucceeded, EvSend (Patch_Version p),
            EvSetVersion (Patch_Version p), EvSleep sleepTime]"
proof -
  from iteration_Apply [OF assms]
  have q: "fst (Query c a) = Inr (Some p, None)"
    and h: "VersionCompare (Version a) (Patch_Version p) = Inr Higher"
    and ap: "Patch_Apply c p = None" by simp_all
  from iteration_Higher [OF q h] ap assms(1) show ?thesis
    by (auto simp: Version_def)
qed

text \<open>
  Claim C3. In an iteration in which \<open>Apply()\<close> returns an error, the updater is left
  as it was, so \<open>Version()\<close> returns what it returned before, and nothing is sent on the
  notification channel.
\<close>
theorem apply_failure_changes_nothing:
  assumes "iteration c a = (st, a', es)" and "EvApply p (Some err) \<in> set es"
  shows "st = Running \<and> a' = a \<and> Version a' = Version a \<and> UpdatedTo a' = UpdatedTo a
    \<and> (\<forall>s. EvSend s \<notin> set es)
    \<and> es = [EvLog (LogOldNew (Version a) (Patch_Version p)),
            EvLog (LogAttempting (Patch_Version p)), EvApply p (Some err),
            EvLog (LogPatchingFailed err), EvSleep sleepTime]"
proof -
  from iteration_Apply [OF assms]
  have q: "fst (Query c a) = Inr (Some p, None)"
    and h: "VersionCompare (Version a) (Patch_Version p) = Inr Higher"
    and ap: "Patch_Apply c p = Some err" by simp_all
  from iteration_Higher [OF q h] ap assms(1) show ?thesis
    by auto
qed



lemma tag_v1_9_0: "parse ''v1.9.0'' = Some (1, 9, 0)"
  by code_simp

lemma tag_v2_0_0: "parse ''v2.0.0'' = Some (2, 0, 0)"
  by code_simp


lemma downgrade_run:
  "iteration (answering (serverReports ''v1.9.0'') None) (updaterAt ''v2.0.0'') =
     (Running, (updaterAt ''v2.0.0'')\<lparr>UpdatedTo := [''v1.9.0''], v := ''v1.9.0''\<rparr>,
      [EvLog (LogOldNew ''v2.0.0'' ''v1.9.0''), EvLog (LogAttempting ''v1.9.0''),
       EvApply (patchTo ''v1.9.0'') None, EvLog LogPatchingSucceeded, EvSend ''v1.9.0'',
       EvSetVersion ''v1.9.0'', EvSleep sleepTime])"
proof -
  have q: "fst (Query (answering (serverReports ''v1.9.0'') None) (updaterAt ''v2.0.0''))
      = Inr (Some (patchTo ''v1.9.0''), None)"
    by (simp add: Query_answering)
  have h: "VersionCompare (Version (updaterAt ''v2.0.0'')) (Patch_Version (patchTo ''v1.9.0''))
      = Inr Higher"
    by (simp add: VersionCompare_def Version_def updaterAt_def Patch_Version_def patchTo_def
        tag_v2_0_0 tag_v1_9_0)
  show ?thesis
    unfolding iteration_Higher [OF q h]
    by (simp add: Patch_Apply_def answering_def Version_def updaterAt_def Patch_Version_def
        patchTo_def)
qed

lemma failed_downgrade_run:
  "iteration (answering (serverReports ''v1.9.0'') (Some (Failure ''download failed'')))
       (updaterAt ''v2.0.0'') =
     (Running, updaterAt ''v2.0.0'',
      [EvLog (LogOldNew ''v2.0.0'' ''v1.9.0''), EvLog (LogAttempting ''v1.9.0''),
       EvApply (patchTo ''v1.9.0'') (Some (Failure ''download failed'')),
       EvLog (LogPatchingFailed (Failure ''download failed'')), EvSleep sleepTime])"
proof -
  have q: "fst (Query (answering (serverReports ''v1.9.0'') (Some (Failure ''download failed'')))
       (updaterAt ''v2.0.0'')) = Inr (Some (patchTo ''v1.9.0''), None)"
    by (simp add: Query_answering)
  have h: "VersionCompare (Version (updaterAt ''v2.0.0'')) (Patch_Version (patchTo ''v1.9.0''))
      = Inr Higher"
    by (simp add: VersionCompare_def Version_def updaterAt_def Patch_Version_def patchTo_def
        tag_v2_0_0 tag_v1_9_0)
  show ?thesis
    unfolding iteration_Higher [OF q h]
    by (simp add: Patch_Apply_def answering_def Version_def updaterAt_def Patch_Version_def
        patchTo_def)
qed

theorem apply_success_publishes_then_sets_version_witness:
  "iteration (answering (serverReports ''v1.9.0'') None) (updaterAt ''v2.0.0'') =
     (Running, (updaterAt ''v2.0.0'')\<lparr>UpdatedTo := [''v1.9.0''], v := ''v1.9.0''\<rparr>,
      [EvLog (LogOldNew ''v2.0.0'' ''v1.9.0''), EvLog (LogAttempting ''v1.9.0''),
       EvApply (patchTo ''v1.9.0'') None, EvLog LogPatchingSucceeded, EvSend ''v1.9.0'',
       EvSetVersion ''v1.9.0'', EvSleep sleepTime])
   \<and> UpdatedTo ((updaterAt ''v2.0.0'')\<lparr>UpdatedTo := [''v1.9.0''], v := ''v1.9.0''\<rparr>)
       = UpdatedTo (updaterAt ''v2.0.0'') @ [Patch_Version (patchTo ''v1.9.0'')]
   \<and> Version ((updaterAt ''v2.0.0'')\<lparr>UpdatedTo := [''v1.9.0''], v := ''v1.9.0''\<rparr>)
       = Patch_Version (patchTo ''v1.9.0'')"
proof -
  have m: "EvApply (patchTo ''v1.9.0'') None \<in> set
      [EvLog (LogOldNew ''v2.0.0'' ''v1.9.0''), EvLog (LogAttempting ''v1.9.0''),
       EvApply (patchTo ''v1.9.0'') None, EvLog LogPatchingSucceeded, EvSend ''v1.9.0'',
       EvSetVersion ''v1.9.0'', EvSleep sleepTime]"
    by simp
  from apply_success_publishes_then_sets_version [OF downgrade_run m] downgrade_run
  show ?thesis by blast
qed

theorem apply_failure_changes_nothing_witness:
  "iteration (answering (serverReports ''v1.9.0'') (Some (Failure ''download failed'')))
       (updaterAt ''v2.0.0'') =
     (Running, updaterAt ''v2.0.0'',
      [EvLog (LogOldNew ''v2.0.0'' ''v1.9.0''), EvLog (LogAttempting ''v1.9.0''),
       EvApply (patchTo ''v1.9.0'') (Some (Failure ''download failed'')),
       EvLog (LogPatchingFailed (Failure ''download failed'')), EvSleep sleepTime])
   \<and> Version (updaterAt ''v2.0.0'') = Version (updaterAt ''v2.0.0'')
   \<and> (\<forall>s. EvSend s \<notin> set
      [EvLog (LogOldNew ''v2.0.0'' ''v1.9.0''), EvLog (LogAttempting ''v1.9.0''),
       EvApply (patchTo ''v1.9.0'') (Some (Failure ''download failed'')),
       EvLog (LogPatchingFailed (Failure ''download failed'')), EvSleep sleepTime])"
proof -
  have m: "EvApply (patchTo ''v1.9.0'') (Some (Failure ''download failed'')) \<in> set
      [EvLog (LogOldNew ''v2.0.0'' ''v1.9.0''), EvLog (LogAttempting ''v1.9.0''),
       EvApply (patchTo ''v1.9.0'') (Some (Failure ''download failed'')),
       EvLog (LogPatchingFailed (Failure ''download failed'')), EvSleep sleepTime]"
    by simp
  from apply_failure_changes_nothing [OF failed_downgrade_run m] failed_downgrade_run
  show ?thesis by blast
qed

lemma iteration_applies_iff:
  assumes "fst (Query c a) = Inr (Some p, None)"
  shows "(\<exists>r. EvApply p r \<in> set (snd (snd (iteration c a))))
     \<longleftrightarrow> VersionCompare (Version a) (Patch_Version p) = Inr Higher"
proof
  assume "\<exists>r. EvApply p r \<in> set (snd (snd (iteration c a)))"
  then obtain r where "EvApply p r \<in> set (snd (snd (iteration c a)))" by blast
  with iteration_Apply [of c a "fst (iteration c a)" "fst (snd (iteration c a))"
      "snd (snd (iteration c a))" p r]
  show "VersionCompare (Version a) (Patch_Version p) = Inr Higher" by simp
next
  assume "VersionCompare (Version a) (Patch_Version p) = Inr Higher"
  from iteration_Higher [OF assms this]
  show "\<exists>r. EvApply p r \<in> set (snd (snd (iteration c a)))"
    by (cases "Patch_Apply c p") auto
qed

section \<open>The loop with any comparison\<close>



lemma applied_no_Apply: "EvApply x y \<notin> set (snd (snd (applied p a)))"
  by (simp add: applied_def Let_def split: prod.splits option.splits)























section \<open>SetProxy\<close>

text \<open>
  Claim C6 says that \<open>SetProxy\<close> with a non-empty address for which the construction of
  the transport fails logs the error and leaves the shared transport as it was. The
  assignment in the \<open>if\<close> statement stores the client that comes back with the error:
  with a constructor that returns a nil client and an error, a transport that was the
  direct client is nil afterwards.
\<close>
theorem SetProxy_failure_overwrites_transport:
  "HTTPClient (fst (SetProxy failing_HTTPClient ''no-port'' \<lparr>HTTPClient = Some ZeroClient\<rparr>))
     \<noteq> HTTPClient \<lparr>HTTPClient = Some ZeroClient\<rparr>
   \<and> snd (SetProxy failing_HTTPClient ''no-port'' \<lparr>HTTPClient = Some ZeroClient\<rparr>)
     = [LogCouldNotUseProxy (Failure ''Unable to split host and port'')]"
  by (simp add: SetProxy_def failing_HTTPClient_def)

text \<open>
  Claim C6, amended. \<open>SetProxy\<close> with a non-empty address stores in the shared
  transport the client that the construction of the transport returned, whether it
  failed or not, and logs the error when it failed; after a failure the shared transport
  is the previous one only if the constructor returned that very client. \<open>SetProxy\<close> with
  an empty address resets the shared transport to the direct, no-proxy client.
\<close>
theorem SetProxy_stores_what_the_constructor_returns:
  "(proxyAddr \<noteq> [] \<longrightarrow>
      HTTPClient (fst (SetProxy mk proxyAddr g)) = fst (mk [] proxyAddr)
      \<and> snd (SetProxy mk proxyAddr g) =
          (case snd (mk [] proxyAddr) of None \<Rightarrow> [] | Some e \<Rightarrow> [LogCouldNotUseProxy e]))
   \<and> (proxyAddr \<noteq> [] \<and> snd (mk [] proxyAddr) \<noteq> None \<longrightarrow>
      (HTTPClient (fst (SetProxy mk proxyAddr g)) = HTTPClient g
         \<longleftrightarrow> fst (mk [] proxyAddr) = HTTPClient g))
   \<and> SetProxy mk [] g = (g\<lparr>HTTPClient := Some ZeroClient\<rparr>, [])"
  by (simp add: SetProxy_def split: prod.splits)

theorem SetProxy_stores_what_the_constructor_returns_witness:
  "''no-port'' \<noteq> [] \<and> snd (failing_HTTPClient [] ''no-port'') \<noteq> None
   \<and> HTTPClient (fst (SetProxy failing_HTTPClient ''no-port'' \<lparr>HTTPClient = Some ZeroClient\<rparr>))
       = None
   \<and> snd (SetProxy failing_HTTPClient ''no-port'' \<lparr>HTTPClient = Some ZeroClient\<rparr>)
       = [LogCouldNotUseProxy (Failure ''Unable to split host and port'')]
   \<and> SetProxy failing_HTTPClient [] \<lparr>HTTPClient = None\<rparr> = (\<lparr>HTTPClient = Some ZeroClient\<rparr>, [])"
proof -
  have n: "''no-port'' \<noteq> []" by simp
  have f: "failing_HTTPClient [] ''no-port''
      = (None, Some (Failure ''Unable to split host and port''))"
    by (simp add: failing_HTTPClient_def)
  from n f show ?thesis
    using SetProxy_stores_what_the_constructor_returns
      [of "''no-port''" failing_HTTPClient "\<lparr>HTTPClient = Some ZeroClient\<rparr>"]
      SetProxy_stores_what_the_constructor_returns
      [of "''no-port''" failing_HTTPClient "\<lparr>HTTPClient = None\<rparr>"]
    by simp
qed

section \<open>The invariant of the version\<close>

lemma SetVersion_versionOK: "versionOK a \<Longrightarrow> versionOK (snd (SetVersion s a))"
  by (simp add: SetVersion_cases versionOK_def)

lemma queried_versionOK: "versionOK a \<Longrightarrow> versionOK (fst (snd (queried c p a)))"
proof (cases "VersionCompare (Version a) (Patch_Version p)")
  case (Inl x)
  assume "versionOK a"
  with Inl show ?thesis by (simp add: queried_cases)
next
  case (Inr r)
  assume ok: "versionOK a"
  from Inr have "isVersionTag (Patch_Version p)" using VersionCompare_Inr by blast
  with ok Inr show ?thesis
    by (simp add: queried_cases versionOK_def split: option.splits)
qed

lemma iteration_versionOK: "versionOK a \<Longrightarrow> versionOK (fst (snd (iteration c a)))"
proof -
  assume ok: "versionOK a"
  show ?thesis
  proof (cases "fst (Query c a)")
    case (Inl x)
    with ok show ?thesis by (simp add: iteration_cases)
  next
    case (Inr pr)
    obtain po eo where pr: "pr = (po, eo)" by (cases pr)
    show ?thesis
    proof (cases eo)
      case (Some err)
      with ok Inr pr show ?thesis by (simp add: iteration_cases split: option.splits)
    next
      case None
      show ?thesis
      proof (cases po)
        case None
        with ok Inr pr \<open>eo = None\<close> show ?thesis by (simp add: iteration_cases)
      next
        case (Some p)
        obtain st a' es where qd: "queried c p a = (st, a', es)" by (cases "queried c p a")
        from queried_versionOK [OF ok, of c p] qd have "versionOK a'" by simp
        with qd Inr pr \<open>eo = None\<close> Some show ?thesis
          by (cases st) (simp_all add: iteration_cases)
      qed
    qed
  qed
qed

lemma iterations_versionOK: "versionOK a \<Longrightarrow> versionOK (fst (snd (iterations cs a)))"
proof (induction cs arbitrary: a)
  case Nil
  then show ?case by simp
next
  case (Cons c cs)
  obtain st a' es where it: "iteration c a = (st, a', es)" by (cases "iteration c a")
  from iteration_versionOK [OF Cons.prems, of c] it have ok': "versionOK a'" by simp
  show ?case
  proof (cases st)
    case Running
    obtain st' a'' es' where its: "iterations cs a' = (st', a'', es')"
      by (cases "iterations cs a'")
    from Cons.IH [OF ok'] its have "versionOK a''" by simp
    with it Running its show ?thesis by simp
  next
    case (Panicked x)
    with it ok' show ?thesis by simp
  qed
qed

lemma queried_malformed:
  assumes "\<not> isVersionTag (Patch_Version p)"
  shows "\<exists>x. queried c p a = (Panicked x, a, [EvLog (LogOldNew (Version a) (Patch_Version p))])"
proof (cases "VersionCompare (Version a) (Patch_Version p)")
  case (Inl x)
  then show ?thesis by (simp add: queried_cases)
next
  case (Inr r)
  with assms VersionCompare_Inr show ?thesis by blast
qed

text \<open>
  Claim C10. The version of an updater is the empty string, as \<open>New\<close> leaves it, or a
  well-formed tag, and every operation keeps it so: \<open>SetVersion\<close>, \<open>Query\<close>, \<open>Watch\<close>, one
  iteration of the loop and any number of them. \<open>SetVersion\<close> panics on a malformed
  value and stores nothing; the loop sets the version through \<open>SetVersion\<close> only, so
  with a malformed version of the patch the branch after a successful apply panics
  with the version as it was, and so does the iteration as a whole.
\<close>
theorem version_stays_unset_or_wellformed:
  "versionOK (New cfg)
   \<and> (versionOK a \<longrightarrow>
        versionOK (snd (SetVersion s a)) \<and> versionOK (snd (Query c a))
        \<and> versionOK (fst (snd (Watch a))) \<and> versionOK (fst (snd (iteration c a)))
        \<and> versionOK (fst (snd (loop cs a))))
   \<and> (\<not> isVersionTag s \<longrightarrow>
        fst (SetVersion s a) \<noteq> None \<and> snd (SetVersion s a) = a)
   \<and> (\<not> isVersionTag (Patch_Version p) \<longrightarrow>
        (\<exists>x. fst (applied p a) = Panicked x) \<and> v (fst (snd (applied p a))) = v a
        \<and> (\<exists>x. fst (queried c p a) = Panicked x) \<and> fst (snd (queried c p a)) = a)"
proof -
  have c1: "versionOK (New cfg)" by (simp add: versionOK_def New_def)
  have c2: "versionOK a \<longrightarrow>
        versionOK (snd (SetVersion s a)) \<and> versionOK (snd (Query c a))
        \<and> versionOK (fst (snd (Watch a))) \<and> versionOK (fst (snd (iteration c a)))
        \<and> versionOK (fst (snd (loop cs a)))"
  proof
    assume ok: "versionOK a"
    have w: "versionOK (fst (snd (Watch a)))" using ok by (simp add: Watch_def)
    obtain st a' es where its: "iterations cs a = (st, a', es)" by (cases "iterations cs a")
    from iterations_versionOK [OF ok, of cs] its have "versionOK a'" by simp
    with its have l: "versionOK (fst (snd (loop cs a)))" by (simp add: loop_def)
    from ok w l show "versionOK (snd (SetVersion s a)) \<and> versionOK (snd (Query c a))
        \<and> versionOK (fst (snd (Watch a))) \<and> versionOK (fst (snd (iteration c a)))
        \<and> versionOK (fst (snd (loop cs a)))"
      by (simp add: SetVersion_versionOK Query_frame iteration_versionOK)
  qed
  have c3: "\<not> isVersionTag s \<longrightarrow> fst (SetVersion s a) \<noteq> None \<and> snd (SetVersion s a) = a"
    by (simp add: SetVersion_cases)
  have c4: "\<not> isVersionTag (Patch_Version p) \<longrightarrow>
        (\<exists>x. fst (applied p a) = Panicked x) \<and> v (fst (snd (applied p a))) = v a
        \<and> (\<exists>x. fst (queried c p a) = Panicked x) \<and> fst (snd (queried c p a)) = a"
  proof
    assume m: "\<not> isVersionTag (Patch_Version p)"
    from applied_malformed [OF m, of a] obtain x where
      "applied p a = (Panicked x, a\<lparr>UpdatedTo := UpdatedTo a @ [Patch_Version p]\<rparr>,
         [EvLog LogPatchingSucceeded, EvSend (Patch_Version p)])" by blast
    then have a1: "(\<exists>x. fst (applied p a) = Panicked x) \<and> v (fst (snd (applied p a))) = v a"
      by simp
    from queried_malformed [OF m, of c a] obtain y where
      "queried c p a = (Panicked y, a, [EvLog (LogOldNew (Version a) (Patch_Version p))])"
      by blast
    then have a2: "(\<exists>x. fst (queried c p a) = Panicked x) \<and> fst (snd (queried c p a)) = a"
      by simp
    from a1 a2 show "(\<exists>x. fst (applied p a) = Panicked x) \<and> v (fst (snd (applied p a))) = v a
        \<and> (\<exists>x. fst (queried c p a) = Panicked x) \<and> fst (snd (queried c p a)) = a"
      by blast
  qed
  show ?thesis
    by (intro conjI) (rule c1 c2 c3 c4)+
qed

theorem version_stays_unset_or_wellformed_witness:
  "versionOK (updaterAt ''v2.0.0'')
   \<and> versionOK (fst (snd (iteration (answering (serverReports ''v1.9.0'') None)
        (updaterAt ''v2.0.0''))))
   \<and> v (fst (snd (iteration (answering (serverReports ''v1.9.0'') None)
        (updaterAt ''v2.0.0'')))) = ''v1.9.0''
   \<and> \<not> isVersionTag (Patch_Version (patchTo ''1.9''))
   \<and> (\<exists>x. fst (applied (patchTo ''1.9'') (updaterAt ''v2.0.0'')) = Panicked x)
   \<and> v (fst (snd (applied (patchTo ''1.9'') (updaterAt ''v2.0.0'')))) = ''v2.0.0''"
proof -
  have t: "isVersionTag ''v2.0.0''" by (simp add: isVersionTag_def tag_v2_0_0)
  then have ok: "versionOK (updaterAt ''v2.0.0'')" by (simp add: versionOK_def updaterAt_def)
  have "\<not> isVersionTag ''1.9''" by code_simp
  then have m: "\<not> isVersionTag (Patch_Version (patchTo ''1.9''))"
    by (simp add: Patch_Version_def patchTo_def)
  have r: "v (fst (snd (iteration (answering (serverReports ''v1.9.0'') None)
        (updaterAt ''v2.0.0'')))) = ''v1.9.0''"
    by (simp add: downgrade_run)
  have u: "v (updaterAt ''v2.0.0'') = ''v2.0.0''" by (simp add: updaterAt_def)
  from ok m r u show ?thesis
    using version_stays_unset_or_wellformed
      [of None "updaterAt ''v2.0.0''" "''v2.0.0''" "answering (serverReports ''v1.9.0'') None"
        "[]" "patchTo ''1.9''"]
    by simp
qed

end
